theory Spec2Isabelle
  imports Main
begin

section \<open>Handlers, middleware and routes\<close>

text \<open>
  A Go \<^verbatim>\<open>http.HandlerFunc\<close> is a nullable function value. A handler acts on a world
  \<open>'w\<close> (the response writer together with the request); calling it either returns the
  new world or panics (\<open>None\<close>), and calling the nil function panics.

  A \<^verbatim>\<open>Mware\<close> is a Go function from handler functions to handler functions. It is
  embedded as a HOL function: a middleware that is called returns, and has no state of
  its own. The nil middleware is the \<open>None\<close> of a value of type \<open>'w Mware option\<close>, in
  the slices of middleware that groups and routers hold.
\<close>

datatype 'w HandlerFunc = NilFn | Fn "'w \<Rightarrow> 'w option"

fun call :: "'w HandlerFunc \<Rightarrow> 'w \<Rightarrow> 'w option" where
  "call NilFn w = None"
| "call (Fn f) w = f w"

type_synonym 'w Mware = "'w HandlerFunc \<Rightarrow> 'w HandlerFunc"

record 'w Route =
  pattern :: string
  fn :: "'w HandlerFunc"

text \<open>
  The process ends through \<^verbatim>\<open>os.Exit(1)\<close> after a message was logged
  (\<^verbatim>\<open>log.Output\<close> then \<^verbatim>\<open>os.Exit\<close>, \<^verbatim>\<open>log.Fatal\<close>, \<^verbatim>\<open>log.Fatalf\<close>).
\<close>

datatype fatal = Exit string

text \<open>
  The dynamic values that can reach the parameter \<^verbatim>\<open>h any\<close> of \<^verbatim>\<open>Handle\<close>:
  a value of some type with a \<^verbatim>\<open>ServeHTTP\<close> method (given by that method), a value of
  type \<^verbatim>\<open>http.HandlerFunc\<close>, a value of the unnamed function type, and a value of any
  other type (given by what \<^verbatim>\<open>%T\<close> prints for it; the nil interface prints as
  \<^verbatim>\<open><nil>\<close>).
\<close>

datatype 'w handler_input =
    ServeHTTP "'w \<Rightarrow> 'w option"
  | HandlerFuncValue "'w HandlerFunc"
  | PlainFunc "'w HandlerFunc"
  | Unsupported string

text \<open>
  The type switch of \<^verbatim>\<open>Handle\<close>. Its cases are tried in order, and
  \<^verbatim>\<open>http.HandlerFunc\<close> has a \<^verbatim>\<open>ServeHTTP\<close> method (which calls the function), so a
  value of that type is taken by the first case, \<^verbatim>\<open>case http.Handler\<close>, and becomes a
  closure around \<^verbatim>\<open>t.ServeHTTP\<close>.
\<close>

fun handler_switch :: "'w handler_input \<Rightarrow> fatal + 'w HandlerFunc" where
  "handler_switch (ServeHTTP t) = Inr (Fn (\<lambda>w. t w))"
| "handler_switch (HandlerFuncValue t) = Inr (Fn (\<lambda>w. call t w))"
| "handler_switch (PlainFunc t) = Inr t"
| "handler_switch (Unsupported ty) =
     Inl (Exit (''require either http.Handler or http.HandlerFunc got: '' @ ty))"

definition Handle :: "string \<Rightarrow> 'w handler_input \<Rightarrow> 'w Mware list \<Rightarrow> fatal + 'w Route" where
  "Handle pat h mw =
    (case handler_switch h of
       Inl e \<Rightarrow> Inl e
     | Inr f \<Rightarrow> Inr (fold (\<lambda>m route. route\<lparr>fn := m (fn route)\<rparr>) mw \<lparr>pattern = pat, fn = f\<rparr>))"

definition Route_Wrap :: "'w Route \<Rightarrow> 'w Mware list \<Rightarrow> 'w Route" where
  "Route_Wrap r mw = fold (\<lambda>m r'. r'\<lparr>fn := m (fn r')\<rparr>) mw r"

text \<open>
  The nesting a sequence of middleware builds: \<open>wrapped [m1, \<dots>, mn] h\<close> is
  \<open>mn (\<dots> (m1 h))\<close>.
\<close>

fun wrapped :: "'w Mware list \<Rightarrow> 'w HandlerFunc \<Rightarrow> 'w HandlerFunc" where
  "wrapped [] h = h"
| "wrapped (m # ms) h = wrapped ms (m h)"

text \<open>
  What a handler input does when it serves a request: its \<^verbatim>\<open>ServeHTTP\<close> method, or the
  call of the function.
\<close>

fun recognized :: "'w handler_input \<Rightarrow> bool" where
  "recognized (Unsupported ty) = False"
| "recognized h = True"

fun serves :: "'w handler_input \<Rightarrow> 'w \<Rightarrow> 'w option" where
  "serves (ServeHTTP t) w = t w"
| "serves (HandlerFuncValue t) w = call t w"
| "serves (PlainFunc t) w = call t w"
| "serves (Unsupported ty) w = None"

text \<open>
  The middleware the execution order is stated for: it runs \<open>pre\<close>, delegates to the
  handler it wraps, and runs \<open>post\<close> when that handler has returned.
\<close>

definition onion :: "('w \<Rightarrow> 'w) \<Rightarrow> ('w \<Rightarrow> 'w) \<Rightarrow> 'w Mware" where
  "onion pre post next = Fn (\<lambda>w. map_option post (call next (pre w)))"

section \<open>Slices and their backing arrays\<close>

text \<open>
  A Go slice is a view of a backing array: the array, the offset of the first element,
  a length and a capacity. The package appends to slices of routes, of groups and of
  middleware, and assigns to the elements of slices of routes in place, so the backing
  arrays live in a memory: a list of arrays, an address being an index into it. A new
  array is appended to the memory. The nil slice has length and capacity 0.
\<close>

record slice =
  arr :: nat
  off :: nat
  len :: nat
  cap :: nat

definition nil_slice :: slice where
  "nil_slice = \<lparr>arr = 0, off = 0, len = 0, cap = 0\<rparr>"

definition cells :: "'a list list \<Rightarrow> slice \<Rightarrow> 'a list" where
  "cells \<sigma> s = take (len s) (drop (off s) (\<sigma> ! arr s))"

text \<open>
  \<^verbatim>\<open>append(s, xs...)\<close>: with nothing to append the slice is returned as it is; when the
  capacity suffices the values are written into the backing array behind the slice,
  whoever else views those cells; otherwise a new array receives the elements of the
  slice and the values, and zero values \<open>z\<close> up to its capacity. The capacity of the new
  array is the runtime's choice: the policy \<open>gr\<close> (old capacity, needed length) is a
  parameter, and the new capacity is never less than the needed length.
\<close>

type_synonym growth = "nat \<Rightarrow> nat \<Rightarrow> nat"

definition append_slice ::
    "growth \<Rightarrow> 'a \<Rightarrow> 'a list list \<Rightarrow> slice \<Rightarrow> 'a list \<Rightarrow> 'a list list \<times> slice" where
  "append_slice gr z \<sigma> s xs =
    (let n = len s + length xs in
     if xs = [] then (\<sigma>, s)
     else if n \<le> cap s then
       (\<sigma>[arr s := take (off s + len s) (\<sigma> ! arr s) @ xs @ drop (off s + n) (\<sigma> ! arr s)],
        s\<lparr>len := n\<rparr>)
     else
       (let c = max n (gr (cap s) n) in
        (\<sigma> @ [cells \<sigma> s @ xs @ replicate (c - n) z],
         \<lparr>arr = length \<sigma>, off = 0, len = n, cap = c\<rparr>)))"

text \<open>
  The arrays of routes, and \<^verbatim>\<open>append\<close> on a \<^verbatim>\<open>[]Route\<close>.
\<close>

type_synonym 'w heap = "'w Route list list"

definition zero_Route :: "'w Route" where
  "zero_Route = \<lparr>pattern = [], fn = NilFn\<rparr>"

definition append_routes ::
    "growth \<Rightarrow> 'w heap \<Rightarrow> slice \<Rightarrow> 'w Route list \<Rightarrow> 'w heap \<times> slice" where
  "append_routes gr \<sigma> s xs = append_slice gr zero_Route \<sigma> s xs"

text \<open>
  The assignment \<^verbatim>\<open>s[j].fn = m(s[j].fn)\<close>, the inner loop over the middleware for one
  index, and the outer loop over the indices of the slice.
\<close>

definition wrap_step :: "slice \<Rightarrow> nat \<Rightarrow> 'w Mware \<Rightarrow> 'w heap \<Rightarrow> 'w heap" where
  "wrap_step s j m \<sigma> =
    (let a = \<sigma> ! arr s; r = a ! (off s + j)
     in \<sigma>[arr s := a[off s + j := r\<lparr>fn := m (fn r)\<rparr>]])"

definition wrap_index :: "slice \<Rightarrow> 'w Mware list \<Rightarrow> nat \<Rightarrow> 'w heap \<Rightarrow> 'w heap" where
  "wrap_index s mw j \<sigma> = fold (wrap_step s j) mw \<sigma>"

definition wrap_slice :: "slice \<Rightarrow> 'w Mware list \<Rightarrow> 'w heap \<Rightarrow> 'w heap" where
  "wrap_slice s mw \<sigma> = fold (wrap_index s mw) [0..<len s] \<sigma>"

definition Routes_Wrap :: "'w heap \<Rightarrow> slice \<Rightarrow> 'w Mware list \<Rightarrow> 'w heap \<times> slice" where
  "Routes_Wrap \<sigma> r mw = (wrap_slice r mw \<sigma>, r)"

text \<open>
  What the two loops do to one array: the elements at the indices from \<open>lo\<close> up to
  \<open>lo + n\<close> are wrapped, the others stay.
\<close>

definition wrap_array :: "nat \<Rightarrow> nat \<Rightarrow> 'w Mware list \<Rightarrow> 'w Route list \<Rightarrow> 'w Route list" where
  "wrap_array lo n mw a =
    map (\<lambda>(i, r). if lo \<le> i \<and> i < lo + n then Route_Wrap r mw else r) (enumerate 0 a)"

text \<open>
  A slice is well-formed in a memory when its length is within its capacity and its
  capacity within its backing array, as every slice of a Go program is. \<open>frame\<close> says
  what a run may do to a memory: it only grows, no array changes its length, and the
  arrays outside \<open>A\<close> keep their elements; \<open>arrays_of_slices\<close> lists the arrays of the
  slices that have a capacity.
\<close>

definition wf_slice :: "'a list list \<Rightarrow> slice \<Rightarrow> bool" where
  "wf_slice \<sigma> s \<longleftrightarrow>
     len s \<le> cap s \<and> (0 < cap s \<longrightarrow> arr s < length \<sigma> \<and> off s + cap s \<le> length (\<sigma> ! arr s))"

definition arrays_of_slices :: "slice list \<Rightarrow> nat list" where
  "arrays_of_slices ss = map arr (filter (\<lambda>s. 0 < cap s) ss)"

definition frame :: "'a list list \<Rightarrow> 'a list list \<Rightarrow> nat set \<Rightarrow> bool" where
  "frame \<sigma> \<sigma>' A \<longleftrightarrow>
     length \<sigma> \<le> length \<sigma>' \<and>
     (\<forall>a < length \<sigma>. length (\<sigma>' ! a) = length (\<sigma> ! a) \<and> (a \<notin> A \<longrightarrow> \<sigma>' ! a = \<sigma> ! a))"

section \<open>The memory, and the mux\<close>

text \<open>
  The \<^verbatim>\<open>*http.ServeMux\<close> is the collaborator: a pointer to an object of \<^verbatim>\<open>net/http\<close>.
  A mux is given by the patterns and handlers it holds, in the order it received them.
  \<^verbatim>\<open>HandleFunc\<close> panics when the pointer is nil, the handler is nil, the pattern is
  empty or the mux holds the pattern already; what else a mux refuses (a pattern it
  cannot parse, or one in conflict with a pattern it holds, in Go 1.22) depends on the
  version and is the parameter \<open>rf\<close>, of the patterns held and the new pattern. Otherwise
  the mux holds the pair behind the others. \<open>None\<close> is the panic. An address that is not
  in the memory stands for no mux.
\<close>

type_synonym 'w ServeMux = "(string \<times> 'w HandlerFunc) list"

type_synonym refusal = "string list \<Rightarrow> string \<Rightarrow> bool"

fun is_nil :: "'w HandlerFunc \<Rightarrow> bool" where
  "is_nil NilFn = True"
| "is_nil (Fn f) = False"

definition refused :: "refusal \<Rightarrow> 'w ServeMux \<Rightarrow> string \<Rightarrow> 'w HandlerFunc \<Rightarrow> bool" where
  "refused rf held p h \<longleftrightarrow>
     is_nil h \<or> p = [] \<or> p \<in> set (map fst held) \<or> rf (map fst held) p"

fun HandleFunc ::
    "refusal \<Rightarrow> 'w ServeMux list \<Rightarrow> nat option \<Rightarrow> string \<Rightarrow> 'w HandlerFunc \<Rightarrow> 'w ServeMux list option" where
  "HandleFunc rf ms None p h = None"
| "HandleFunc rf ms (Some a) p h =
     (if a < length ms \<and> \<not> refused rf (ms ! a) p h
      then Some (ms[a := ms ! a @ [(p, h)]]) else None)"

text \<open>
  A sequence of \<^verbatim>\<open>HandleFunc\<close> calls on one mux: it stops at the first that panics.
\<close>

fun register_all ::
    "refusal \<Rightarrow> 'w ServeMux list \<Rightarrow> nat option \<Rightarrow> (string \<times> 'w HandlerFunc) list \<Rightarrow> 'w ServeMux list option" where
  "register_all rf ms m [] = Some ms"
| "register_all rf ms m ((p, h) # ps) =
     (case HandleFunc rf ms m p h of
        None \<Rightarrow> None
      | Some ms' \<Rightarrow> register_all rf ms' m ps)"

text \<open>
  A \<^verbatim>\<open>Group\<close> holds three slices. The memory has the arrays of routes that groups and
  callers hold, the arrays of groups, the arrays of middleware (a cell is \<open>None\<close> for
  the nil function, the zero value), the arrays of routes that routers hold, and the
  muxes. The arrays of a router's \<^verbatim>\<open>routes\<close> are apart from the other arrays of
  routes: they come from \<^verbatim>\<open>append\<close> on the router's nil or own \<^verbatim>\<open>routes\<close> in
  \<^verbatim>\<open>Router.Add\<close> and \<^verbatim>\<open>Compose\<close>, and nothing hands them out.
\<close>

record Group =
  groups :: slice
  routes :: slice
  wrap :: slice

definition zero_Group :: Group where
  "zero_Group = \<lparr>groups = nil_slice, routes = nil_slice, wrap = nil_slice\<rparr>"

record 'w memory =
  route_mem :: "'w heap"
  group_mem :: "Group list list"
  mware_mem :: "'w Mware option list list"
  router_mem :: "'w heap"
  muxes :: "'w ServeMux list"

datatype panic = Panic

section \<open>Groups\<close>

text \<open>
  \<^verbatim>\<open>Group.Wrap\<close> appends the given middleware, nil or not, to the slice of the copy it
  returns.
\<close>

definition Group_Wrap ::
    "growth \<Rightarrow> 'w memory \<Rightarrow> Group \<Rightarrow> 'w Mware option list \<Rightarrow> 'w memory \<times> Group" where
  "Group_Wrap gr mem g mw =
    (let (M, s) = append_slice gr None (mware_mem mem) (wrap g) mw
     in (mem\<lparr>mware_mem := M\<rparr>, g\<lparr>wrap := s\<rparr>))"

text \<open>
  The dynamic values that can reach the parameters \<^verbatim>\<open>v ...any\<close> of the two \<^verbatim>\<open>Add\<close>
  methods: of type \<^verbatim>\<open>[]Group\<close>, \<^verbatim>\<open>Group\<close>, \<^verbatim>\<open>[]Route\<close>, \<^verbatim>\<open>Route\<close>, \<^verbatim>\<open>string\<close>,
  \<^verbatim>\<open>http.HandlerFunc\<close>, and of any other type, given by what \<^verbatim>\<open>%T\<close> and \<^verbatim>\<open>%v\<close> print
  for the value (the named type \<^verbatim>\<open>Routes\<close> is such another type: a type switch matches
  \<^verbatim>\<open>[]Route\<close> exactly). \<open>accepted\<close> holds of the four kinds that the methods add.
\<close>

datatype 'w arg =
    ArgGroups slice
  | ArgGroup Group
  | ArgRoutes slice
  | ArgRoute "'w Route"
  | ArgString string
  | ArgHandlerFunc "'w HandlerFunc"
  | ArgOther string string

fun accepted :: "'w arg \<Rightarrow> bool" where
  "accepted (ArgGroups t) = True"
| "accepted (ArgGroup t) = True"
| "accepted (ArgRoutes t) = True"
| "accepted (ArgRoute t) = True"
| "accepted v = False"

fun Group_Add_step :: "growth \<Rightarrow> 'w memory \<Rightarrow> Group \<Rightarrow> 'w arg \<Rightarrow> fatal + 'w memory \<times> Group" where
  "Group_Add_step gr mem g (ArgGroups t) =
     (let (G, s) = append_slice gr zero_Group (group_mem mem) (groups g) (cells (group_mem mem) t)
      in Inr (mem\<lparr>group_mem := G\<rparr>, g\<lparr>groups := s\<rparr>))"
| "Group_Add_step gr mem g (ArgGroup t) =
     (let (G, s) = append_slice gr zero_Group (group_mem mem) (groups g) [t]
      in Inr (mem\<lparr>group_mem := G\<rparr>, g\<lparr>groups := s\<rparr>))"
| "Group_Add_step gr mem g (ArgRoutes t) =
     (let (\<sigma>, s) = append_routes gr (route_mem mem) (routes g) (cells (route_mem mem) t)
      in Inr (mem\<lparr>route_mem := \<sigma>\<rparr>, g\<lparr>routes := s\<rparr>))"
| "Group_Add_step gr mem g (ArgRoute t) =
     (let (\<sigma>, s) = append_routes gr (route_mem mem) (routes g) [t]
      in Inr (mem\<lparr>route_mem := \<sigma>\<rparr>, g\<lparr>routes := s\<rparr>))"
| "Group_Add_step gr mem g (ArgString s) = Inl (Exit ''use srv.Handle() to add an endpoint'')"
| "Group_Add_step gr mem g (ArgHandlerFunc f) = Inl (Exit ''unknown type: http.HandlerFunc'')"
| "Group_Add_step gr mem g (ArgOther ty val) = Inl (Exit (''unknown type: '' @ ty))"

fun Group_Add :: "growth \<Rightarrow> 'w memory \<Rightarrow> Group \<Rightarrow> 'w arg list \<Rightarrow> fatal + 'w memory \<times> Group" where
  "Group_Add gr mem g [] = Inr (mem, g)"
| "Group_Add gr mem g (v # vs) =
     (case Group_Add_step gr mem g v of
        Inl e \<Rightarrow> Inl e
      | Inr (mem', g') \<Rightarrow> Group_Add gr mem' g' vs)"

text \<open>
  The second loop of \<^verbatim>\<open>compose\<close>, over the routes and, for each, over the middleware:
  with no route nothing is called; with a route, a nil middleware panics when it is
  called.
\<close>

definition wrap_all :: "slice \<Rightarrow> 'w Mware option list \<Rightarrow> 'w heap \<Rightarrow> panic + 'w heap" where
  "wrap_all s ws \<sigma> =
    (case those ws of
       Some mw \<Rightarrow> Inr (wrap_slice s mw \<sigma>)
     | None \<Rightarrow> if len s = 0 then Inr \<sigma> else Inl Panic)"

text \<open>
  \<^verbatim>\<open>compose\<close>: the first loop (\<open>compose_groups\<close>) appends what each sub-group composes
  to, in order, to the local \<^verbatim>\<open>g.routes\<close>; the second wraps every element of that slice
  in place with the middleware of the group; the slice is returned. The receiver is a
  copy of the caller's group, and so is its slice header \<^verbatim>\<open>g.routes\<close>: the backing
  array is the caller's until \<^verbatim>\<open>append\<close> allocates another. The arrays of groups \<open>G\<close>
  and of middleware \<open>M\<close> are read and never written. The recursion goes through the
  memory and need not end: the first argument bounds the depth of the calls, and \<open>None\<close>
  says that the bound did not suffice.
\<close>

fun compose ::
    "nat \<Rightarrow> growth \<Rightarrow> Group list list \<Rightarrow> 'w Mware option list list \<Rightarrow> 'w heap \<Rightarrow> Group
       \<Rightarrow> (panic + 'w heap \<times> slice) option"
  and compose_groups ::
    "nat \<Rightarrow> growth \<Rightarrow> Group list list \<Rightarrow> 'w Mware option list list \<Rightarrow> 'w heap \<Rightarrow> slice \<Rightarrow> Group list
       \<Rightarrow> (panic + 'w heap \<times> slice) option" where
  "compose 0 gr G M \<sigma> g = None"
| "compose (Suc n) gr G M \<sigma> g =
     (case compose_groups n gr G M \<sigma> (routes g) (cells G (groups g)) of
        None \<Rightarrow> None
      | Some (Inl e) \<Rightarrow> Some (Inl e)
      | Some (Inr (\<sigma>1, rs1)) \<Rightarrow>
          (case wrap_all rs1 (cells M (wrap g)) \<sigma>1 of
             Inl e \<Rightarrow> Some (Inl e)
           | Inr \<sigma>2 \<Rightarrow> Some (Inr (\<sigma>2, rs1))))"
| "compose_groups n gr G M \<sigma> acc [] = Some (Inr (\<sigma>, acc))"
| "compose_groups n gr G M \<sigma> acc (sub # rest) =
     (case compose n gr G M \<sigma> sub of
        None \<Rightarrow> None
      | Some (Inl e) \<Rightarrow> Some (Inl e)
      | Some (Inr (\<sigma>1, out)) \<Rightarrow>
          (case append_routes gr \<sigma>1 acc (cells \<sigma>1 out) of
             (\<sigma>2, acc') \<Rightarrow> compose_groups n gr G M \<sigma>2 acc' rest))"

section \<open>The router\<close>

text \<open>
  The \<^verbatim>\<open>mux\<close> of a router is the address of a mux, or \<open>None\<close> for the nil pointer of
  the zero value \<^verbatim>\<open>Router{}\<close>.
\<close>

record Router =
  mux :: "nat option"
  rgroups :: slice
  rroutes :: slice
  rwrap :: slice

definition NewRouter :: "'w memory \<Rightarrow> 'w memory \<times> Router" where
  "NewRouter mem =
    (mem\<lparr>muxes := muxes mem @ [[]]\<rparr>,
     \<lparr>mux = Some (length (muxes mem)), rgroups = nil_slice, rroutes = nil_slice, rwrap = nil_slice\<rparr>)"

definition Router_Set :: "Router \<Rightarrow> nat option \<Rightarrow> Router" where
  "Router_Set r m = r\<lparr>mux := m\<rparr>"

definition Router_Wrap ::
    "growth \<Rightarrow> 'w memory \<Rightarrow> Router \<Rightarrow> 'w Mware option list \<Rightarrow> 'w memory \<times> Router" where
  "Router_Wrap gr mem r mw =
    (let (M, s) = append_slice gr None (mware_mem mem) (rwrap r) mw
     in (mem\<lparr>mware_mem := M\<rparr>, r\<lparr>rwrap := s\<rparr>))"

fun Router_Add_step :: "growth \<Rightarrow> 'w memory \<Rightarrow> Router \<Rightarrow> 'w arg \<Rightarrow> fatal + 'w memory \<times> Router" where
  "Router_Add_step gr mem r (ArgGroups t) =
     (let (G, s) = append_slice gr zero_Group (group_mem mem) (rgroups r) (cells (group_mem mem) t)
      in Inr (mem\<lparr>group_mem := G\<rparr>, r\<lparr>rgroups := s\<rparr>))"
| "Router_Add_step gr mem r (ArgGroup t) =
     (let (G, s) = append_slice gr zero_Group (group_mem mem) (rgroups r) [t]
      in Inr (mem\<lparr>group_mem := G\<rparr>, r\<lparr>rgroups := s\<rparr>))"
| "Router_Add_step gr mem r (ArgRoutes t) =
     (let (\<rho>, s) = append_routes gr (router_mem mem) (rroutes r) (cells (route_mem mem) t)
      in Inr (mem\<lparr>router_mem := \<rho>\<rparr>, r\<lparr>rroutes := s\<rparr>))"
| "Router_Add_step gr mem r (ArgRoute t) =
     (let (\<rho>, s) = append_routes gr (router_mem mem) (rroutes r) [t]
      in Inr (mem\<lparr>router_mem := \<rho>\<rparr>, r\<lparr>rroutes := s\<rparr>))"
| "Router_Add_step gr mem r (ArgHandlerFunc f) = Inl (Exit ''use srv.Handle() to add endpoint'')"
| "Router_Add_step gr mem r (ArgString s) = Inl (Exit ''use srv.Handle() to add endpoint'')"
| "Router_Add_step gr mem r (ArgOther ty val) = Inl (Exit (''unknown type: '' @ ty @ '' '' @ val))"

fun Router_Add :: "growth \<Rightarrow> 'w memory \<Rightarrow> Router \<Rightarrow> 'w arg list \<Rightarrow> fatal + 'w memory \<times> Router" where
  "Router_Add gr mem r [] = Inr (mem, r)"
| "Router_Add gr mem r (v # vs) =
     (case Router_Add_step gr mem r v of
        Inl e \<Rightarrow> Inl e
      | Inr (mem', r') \<Rightarrow> Router_Add gr mem' r' vs)"

text \<open>
  The first loop of \<^verbatim>\<open>Compose\<close>: what each top-level group composes to is appended,
  in order, to the local \<^verbatim>\<open>r.routes\<close>, in the arrays \<open>\<rho>\<close> of the routers.
\<close>

fun Compose_groups ::
    "nat \<Rightarrow> growth \<Rightarrow> Group list list \<Rightarrow> 'w Mware option list list \<Rightarrow> 'w heap \<Rightarrow> 'w heap \<Rightarrow> slice
       \<Rightarrow> Group list \<Rightarrow> (panic + 'w heap \<times> 'w heap \<times> slice) option" where
  "Compose_groups n gr G M \<sigma> \<rho> acc [] = Some (Inr (\<sigma>, \<rho>, acc))"
| "Compose_groups n gr G M \<sigma> \<rho> acc (sub # rest) =
     (case compose n gr G M \<sigma> sub of
        None \<Rightarrow> None
      | Some (Inl e) \<Rightarrow> Some (Inl e)
      | Some (Inr (\<sigma>1, out)) \<Rightarrow>
          (case append_routes gr \<rho> acc (cells \<sigma>1 out) of
             (\<rho>1, acc') \<Rightarrow> Compose_groups n gr G M \<sigma>1 \<rho>1 acc' rest))"

text \<open>
  The last loop of \<^verbatim>\<open>Compose\<close>, over the indices \<open>js\<close>: for each, the router's
  middleware wraps the element in place (a nil middleware panics), and the element's
  pattern and handler are passed to \<^verbatim>\<open>HandleFunc\<close> of the mux, which may panic.
\<close>

fun register_loop ::
    "refusal \<Rightarrow> nat option \<Rightarrow> slice \<Rightarrow> 'w Mware option list \<Rightarrow> nat list
       \<Rightarrow> 'w heap \<times> 'w ServeMux list \<Rightarrow> panic + 'w heap \<times> 'w ServeMux list" where
  "register_loop rf m s ws [] (\<rho>, ms) = Inr (\<rho>, ms)"
| "register_loop rf m s ws (j # js) (\<rho>, ms) =
     (case those ws of
        None \<Rightarrow> Inl Panic
      | Some mw \<Rightarrow>
          (let \<rho>' = wrap_index s mw j \<rho>; r = \<rho>' ! arr s ! (off s + j)
           in case HandleFunc rf ms m (pattern r) (fn r) of
                None \<Rightarrow> Inl Panic
              | Some ms' \<Rightarrow> register_loop rf m s ws js (\<rho>', ms')))"

text \<open>
  \<^verbatim>\<open>Compose\<close> ends in the exit of \<^verbatim>\<open>Add\<close> (\<open>Inl\<close>), in a panic (\<open>Inr (Inl Panic)\<close>), or
  returns the mux of the router.
\<close>

definition Compose ::
    "nat \<Rightarrow> growth \<Rightarrow> refusal \<Rightarrow> 'w memory \<Rightarrow> Router \<Rightarrow> 'w arg list
       \<Rightarrow> (fatal + panic + 'w memory \<times> nat option) option" where
  "Compose n gr rf mem r v =
    (case Router_Add gr mem r v of
       Inl e \<Rightarrow> Some (Inl e)
     | Inr (mem1, r1) \<Rightarrow>
         (case Compose_groups n gr (group_mem mem1) (mware_mem mem1) (route_mem mem1) (router_mem mem1)
                 (rroutes r1) (cells (group_mem mem1) (rgroups r1)) of
            None \<Rightarrow> None
          | Some (Inl e) \<Rightarrow> Some (Inr (Inl e))
          | Some (Inr (\<sigma>2, \<rho>2, rs)) \<Rightarrow>
              (case register_loop rf (mux r1) rs (cells (mware_mem mem1) (rwrap r1)) [0..<len rs]
                      (\<rho>2, muxes mem1) of
                 Inl e \<Rightarrow> Some (Inr (Inl e))
               | Inr (\<rho>3, ms) \<Rightarrow>
                   Some (Inr (Inr (mem1\<lparr>route_mem := \<sigma>2, router_mem := \<rho>3, muxes := ms\<rparr>, mux r1))))))"

text \<open>
  \<^verbatim>\<open>Routes.Serve\<close>: a new mux receives every route of the slice, in order.
\<close>

definition Routes_Serve :: "refusal \<Rightarrow> 'w memory \<Rightarrow> slice \<Rightarrow> panic + 'w memory \<times> nat" where
  "Routes_Serve rf mem r =
    (case register_all rf (muxes mem @ [[]]) (Some (length (muxes mem)))
            (map (\<lambda>rt. (pattern rt, fn rt)) (cells (route_mem mem) r)) of
       None \<Rightarrow> Inl Panic
     | Some ms \<Rightarrow> Inr (mem\<lparr>muxes := ms\<rparr>, length (muxes mem)))"

section \<open>Composition in steps\<close>

text \<open>
  What the claims about \<^verbatim>\<open>Compose\<close> are compared with. \<open>compose_each\<close> is the sequence of
  the calls \<^verbatim>\<open>group.compose()\<close> of a loop over groups, each in the memory the one before
  left: it gives the final memory of routes and, for each group, the list of routes its
  call returned, as it was at the return. \<open>registrations\<close> is the list of pairs that a
  list of routes gives when every handler is wrapped with the middleware \<open>ws\<close>: with no
  route nothing is called; with a route, a nil middleware has no result (the call
  panics). \<open>bounded n\<close> holds of a group whose sub-groups nest less than \<open>n\<close> deep in the
  memory of groups: the calls of \<^verbatim>\<open>compose\<close> on it nest at most \<open>n\<close> deep.
\<close>





section \<open>The redirect handler\<close>

text \<open>
  The handler reads and assigns \<^verbatim>\<open>req.Host\<close>, reads \<^verbatim>\<open>req.URL.Path\<close> and
  \<^verbatim>\<open>req.URL.RawQuery\<close>, and calls \<^verbatim>\<open>http.Redirect\<close>, which is outside this package:
  the world of the handler is the request together with the calls of
  \<^verbatim>\<open>http.Redirect\<close> made on the response writer, each a target and a status code.
\<close>

record request =
  host :: string
  path :: string
  rawQuery :: string

record exchange =
  req :: request
  redirects :: "(string \<times> nat) list"

definition StatusTemporaryRedirect :: nat where
  "StatusTemporaryRedirect = 307"

definition redirect_target :: "request \<Rightarrow> string" where
  "redirect_target rq =
    (let target = ''https://'' @ host rq @ path rq
     in if length (rawQuery rq) > 0 then target @ ''?'' @ rawQuery rq else target)"

definition Redirect :: "string \<Rightarrow> string \<Rightarrow> exchange HandlerFunc" where
  "Redirect HTTP HTTPS = Fn (\<lambda>x.
     (let rq = (if host (req x) = ''localhost'' @ HTTP
                then (req x)\<lparr>host := ''localhost'' @ HTTPS\<rparr> else req x)
      in Some \<lparr>req = rq, redirects = redirects x @ [(redirect_target rq, StatusTemporaryRedirect)]\<rparr>))"

section \<open>Values for concrete runs\<close>

text \<open>
  A capacity policy (doubling), a mux that refuses nothing beyond what every version
  refuses, and handlers and middleware on a world that is the trace of what ran: the
  handler \<open>k\<close> logs \<open>k\<close>, the middleware \<open>k\<close> logs \<open>k\<close> before and \<open>k + 100\<close> after the
  handler it wraps.
\<close>

definition doubling :: growth where
  "doubling c n = max n (2 * c)"

definition no_refusal :: refusal where
  "no_refusal held p = False"

definition trace_handler :: "nat \<Rightarrow> nat list HandlerFunc" where
  "trace_handler k = Fn (\<lambda>t. Some (t @ [k]))"

definition logging :: "nat \<Rightarrow> nat list Mware" where
  "logging k = onion (\<lambda>t. t @ [k]) (\<lambda>t. t @ [k + 100])"

text \<open>
  The memory before any call, and the memory and the values that the calls
  \<^verbatim>\<open>g0 := Group{}.Add(Handle("/a", h)).Wrap(m)\<close> and \<^verbatim>\<open>g := g0.Add(g0)\<close> build from it:
  one array holding the route and one holding the middleware (\<open>ex_mem\<close>), and then one
  holding \<^verbatim>\<open>g0\<close> (\<open>ex_nested_mem\<close>). \<open>ex_group\<close> is \<^verbatim>\<open>g0\<close> and \<open>ex_nested\<close> is \<^verbatim>\<open>g\<close>:
  they hold the same slice of routes.
\<close>

definition empty_memory :: "'w memory" where
  "empty_memory = \<lparr>route_mem = [], group_mem = [], mware_mem = [], router_mem = [], muxes = []\<rparr>"

definition ex_route :: "nat list Route" where
  "ex_route = \<lparr>pattern = ''/a'', fn = trace_handler 0\<rparr>"

definition ex_store :: "nat list heap" where
  "ex_store = [[ex_route]]"

definition ex_slice :: slice where
  "ex_slice = \<lparr>arr = 0, off = 0, len = 1, cap = 1\<rparr>"

definition ex_mware :: "nat list Mware option list list" where
  "ex_mware = [[Some (logging 1)]]"

definition ex_group :: Group where
  "ex_group = \<lparr>groups = nil_slice, routes = ex_slice, wrap = ex_slice\<rparr>"

definition ex_nested :: Group where
  "ex_nested = \<lparr>groups = ex_slice, routes = ex_slice, wrap = ex_slice\<rparr>"

definition ex_mem :: "nat list memory" where
  "ex_mem = \<lparr>route_mem = ex_store, group_mem = [], mware_mem = ex_mware, router_mem = [], muxes = []\<rparr>"

definition ex_nested_mem :: "nat list memory" where
  "ex_nested_mem = ex_mem\<lparr>group_mem := [[ex_group]]\<rparr>"

text \<open>
  \<open>ex_router\<close> is what \<^verbatim>\<open>NewRouter()\<close> returns when the memory has no mux yet.
  \<open>ex_router1\<close> and \<open>ex_router2\<close> are the routers of
  \<^verbatim>\<open>r1 := NewRouter().Add(g0); r2 := NewRouter().Add(g0)\<close>, and \<open>ex_routers_mem\<close> the memory
  after these calls: each router holds an array with a copy of \<^verbatim>\<open>g0\<close>, and each has a
  mux that holds nothing.
\<close>

definition ex_router1 :: Router where
  "ex_router1 = \<lparr>mux = Some 0, rgroups = \<lparr>arr = 0, off = 0, len = 1, cap = 1\<rparr>, rroutes = nil_slice,
     rwrap = nil_slice\<rparr>"

definition ex_router2 :: Router where
  "ex_router2 = \<lparr>mux = Some 1, rgroups = \<lparr>arr = 1, off = 0, len = 1, cap = 1\<rparr>, rroutes = nil_slice,
     rwrap = nil_slice\<rparr>"

definition ex_routers_mem :: "nat list memory" where
  "ex_routers_mem = ex_mem\<lparr>group_mem := [[ex_group], [ex_group]], muxes := [[], []]\<rparr>"

definition ex_router :: Router where
  "ex_router = \<lparr>mux = Some 0, rgroups = nil_slice, rroutes = nil_slice, rwrap = nil_slice\<rparr>"

text \<open>
  The group of \<^verbatim>\<open>b := Group{}.Add(G, G, G); x := b.Add(G); z := b.Add(x)\<close>, for the empty
  group \<^verbatim>\<open>G\<close>, and the arrays of groups after these calls: \<^verbatim>\<open>x\<close> and \<^verbatim>\<open>z\<close> are the same
  value, and the last cell of the array they view holds it.
\<close>

definition ex_cyclic :: Group where
  "ex_cyclic = \<lparr>groups = \<lparr>arr = 2, off = 0, len = 4, cap = 4\<rparr>, routes = nil_slice, wrap = nil_slice\<rparr>"

definition ex_cyclic_groups :: "Group list list" where
  "ex_cyclic_groups =
     [[zero_Group], [zero_Group, zero_Group], [zero_Group, zero_Group, zero_Group, ex_cyclic]]"




section \<open>Wrapping one route\<close>

lemma Route_Wrap_simps:
  "Route_Wrap r [] = r"
  "Route_Wrap r (m # mw) = Route_Wrap (r\<lparr>fn := m (fn r)\<rparr>) mw"
  by (simp_all add: Route_Wrap_def)

lemma Route_Wrap_append: "Route_Wrap r (mw1 @ mw2) = Route_Wrap (Route_Wrap r mw1) mw2"
  by (simp add: Route_Wrap_def)

lemma Route_Wrap_eq: "Route_Wrap r mw = \<lparr>pattern = pattern r, fn = wrapped mw (fn r)\<rparr>"
  by (induction mw arbitrary: r) (simp_all add: Route_Wrap_simps)

lemma wrapped_three: "wrapped [m1, m2, m3] h = m3 (m2 (m1 h))"
  by simp

lemma wrapped_append: "wrapped (ms @ ns) h = wrapped ns (wrapped ms h)"
  by (induction ms arbitrary: h) simp_all

lemma Handle_eq:
  "Handle p h mw = (case handler_switch h of Inl e \<Rightarrow> Inl e
     | Inr f \<Rightarrow> Inr (Route_Wrap \<lparr>pattern = p, fn = f\<rparr> mw))"
  by (simp add: Handle_def Route_Wrap_def split: sum.split)

lemma handler_switch_recognized:
  "recognized h \<Longrightarrow> \<exists>f. handler_switch h = Inr f \<and> (\<forall>w. call f w = serves h w)"
  by (cases h) simp_all

lemma call_onion: "call (onion pre post f) w = map_option post (call f (pre w))"
  by (simp add: onion_def)

lemma call_onion_chain:
  "call (wrapped (map (\<lambda>(pre, post). onion pre post) pps) f) w
     = map_option (fold snd pps) (call f (foldr fst pps w))"
proof (induction pps arbitrary: f)
  case Nil
  show ?case by (simp add: option.map_ident)
next
  case (Cons pp pps)
  obtain pre post where pp: "pp = (pre, post)" by (cases pp)
  show ?case
    by (simp add: pp call_onion Cons.IH option.map_comp comp_def)
qed

text \<open>
  C1. For every pattern, every recognized handler input and every sequence of
  middleware, \<^verbatim>\<open>Handle\<close> returns the route with that pattern whose handler is
  \<open>mn (\<dots> (m1 h'))\<close>, where \<open>h'\<close> is the input adapted to a handler function: it does
  what the input does when it serves. When the middleware run logic before and after
  the handler they wrap, a request runs the logic before of \<open>mn\<close> first, down to that of
  \<open>m1\<close>, then the handler, then the logic after of \<open>m1\<close>, up to that of \<open>mn\<close>.
\<close>

theorem Handle_wraps_in_order:
  assumes "recognized h"
  shows "\<exists>h'. handler_switch h = Inr h' \<and> (\<forall>w. call h' w = serves h w)
           \<and> Handle p h mw = Inr \<lparr>pattern = p, fn = wrapped mw h'\<rparr>
           \<and> (\<forall>pps. mw = map (\<lambda>(pre, post). onion pre post) pps \<longrightarrow>
                 (\<forall>w. call (wrapped mw h') w
                    = map_option (fold snd pps) (serves h (foldr fst pps w))))"
proof -
  from assms obtain f where f: "handler_switch h = Inr f" "\<forall>w. call f w = serves h w"
    using handler_switch_recognized by blast
  have "Handle p h mw = Inr \<lparr>pattern = p, fn = wrapped mw f\<rparr>"
    by (simp add: Handle_eq f Route_Wrap_eq)
  moreover have "call (wrapped (map (\<lambda>(pre, post). onion pre post) pps) f) w
                    = map_option (fold snd pps) (serves h (foldr fst pps w))" for pps w
    using call_onion_chain [of pps f w] f(2) by simp
  ultimately show ?thesis using f by blast
qed

theorem Handle_wraps_in_order_witness:
  "recognized (PlainFunc (trace_handler 0)) \<and>
   (\<exists>r. Handle ''/a'' (PlainFunc (trace_handler 0))
          (map (\<lambda>(pre, post). onion pre post)
             [(\<lambda>t. t @ [1], \<lambda>t. t @ [10]), (\<lambda>t. t @ [2], \<lambda>t. t @ [20]),
              (\<lambda>t. t @ [3], \<lambda>t. t @ [30])]) = Inr r
        \<and> pattern r = ''/a'' \<and> call (fn r) [] = Some [3, 2, 1, 0, 10, 20, 30])"
  using Handle_wraps_in_order [of "PlainFunc (trace_handler 0)" "''/a''"
      "map (\<lambda>(pre, post). onion pre post)
         [(\<lambda>t. t @ [1], \<lambda>t. t @ [10]), (\<lambda>t. t @ [2], \<lambda>t. t @ [20]),
          (\<lambda>t. t @ [3], \<lambda>t. t @ [30])]"]
  by (simp add: call_onion trace_handler_def)

section \<open>Wrapping the elements of a slice in place\<close>

lemma length_wrap_array [simp]: "length (wrap_array lo n mw a) = length a"
  by (simp add: wrap_array_def)

lemma nth_wrap_array:
  "i < length a \<Longrightarrow>
   wrap_array lo n mw a ! i = (if lo \<le> i \<and> i < lo + n then Route_Wrap (a ! i) mw else a ! i)"
  by (simp add: wrap_array_def nth_enumerate_eq)

lemma wrap_array_0 [simp]: "wrap_array lo 0 mw a = a"
  by (rule nth_equalityI) (auto simp: nth_wrap_array)

lemma wrap_array_Nil [simp]: "wrap_array lo n [] a = a"
  by (rule nth_equalityI) (simp_all add: nth_wrap_array Route_Wrap_simps)

lemma wrap_array_Suc:
  "(wrap_array lo n mw a)[lo + n := Route_Wrap (wrap_array lo n mw a ! (lo + n)) mw]
     = wrap_array lo (Suc n) mw a"
proof (cases "lo + n < length a")
  case True
  then show ?thesis
    by (intro nth_equalityI) (auto simp: nth_wrap_array nth_list_update)
next
  case False
  then have "length (wrap_array lo n mw a) \<le> lo + n" by simp
  then show ?thesis using False
    by (intro nth_equalityI) (auto simp: nth_wrap_array list_update_beyond)
qed

lemma wrap_array_twice:
  "wrap_array lo n mw2 (wrap_array lo n mw1 a) = wrap_array lo n (mw1 @ mw2) a"
  by (rule nth_equalityI) (simp_all add: nth_wrap_array Route_Wrap_append)

lemma wrap_index_eq:
  "wrap_index s mw j \<sigma>
     = \<sigma>[arr s := (\<sigma> ! arr s)[off s + j := Route_Wrap (\<sigma> ! arr s ! (off s + j)) mw]]"
proof (induction mw arbitrary: \<sigma>)
  case Nil
  show ?case by (simp add: wrap_index_def Route_Wrap_simps)
next
  case (Cons m mw)
  have step: "wrap_index s (m # mw) j \<sigma> = wrap_index s mw j (wrap_step s j m \<sigma>)"
    by (simp add: wrap_index_def)
  show ?case
  proof (cases "arr s < length \<sigma>")
    case False
    then have "\<sigma>[arr s := x] = \<sigma>" for x by (simp add: list_update_beyond)
    then show ?thesis by (simp add: step Cons.IH wrap_step_def Let_def)
  next
    case True
    show ?thesis
    proof (cases "off s + j < length (\<sigma> ! arr s)")
      case False
      then have "(\<sigma> ! arr s)[off s + j := x] = \<sigma> ! arr s" for x
        by (simp add: list_update_beyond)
      with True show ?thesis
        by (simp add: step Cons.IH wrap_step_def Let_def)
    next
      case inb: True
      with True show ?thesis
        by (simp add: step Cons.IH wrap_step_def Let_def Route_Wrap_simps)
    qed
  qed
qed

lemma wrap_prefix_eq:
  "fold (wrap_index s mw) [0..<n] \<sigma> = \<sigma>[arr s := wrap_array (off s) n mw (\<sigma> ! arr s)]"
proof (induction n)
  case 0
  show ?case by simp
next
  case (Suc n)
  have "fold (wrap_index s mw) [0..<Suc n] \<sigma>
          = wrap_index s mw n (\<sigma>[arr s := wrap_array (off s) n mw (\<sigma> ! arr s)])"
    by (simp add: Suc)
  also have "\<dots> = \<sigma>[arr s := wrap_array (off s) (Suc n) mw (\<sigma> ! arr s)]"
  proof (cases "arr s < length \<sigma>")
    case False
    then have "\<sigma>[arr s := x] = \<sigma>" for x by (simp add: list_update_beyond)
    then show ?thesis by (simp add: wrap_index_eq)
  next
    case True
    then show ?thesis by (simp add: wrap_index_eq wrap_array_Suc)
  qed
  finally show ?case .
qed

lemma wrap_slice_eq:
  "wrap_slice s mw \<sigma> = \<sigma>[arr s := wrap_array (off s) (len s) mw (\<sigma> ! arr s)]"
  by (simp add: wrap_slice_def wrap_prefix_eq)

lemma Routes_Wrap_twice:
  "Routes_Wrap (fst (Routes_Wrap \<sigma> rs mw1)) (snd (Routes_Wrap \<sigma> rs mw1)) mw2
     = Routes_Wrap \<sigma> rs (mw1 @ mw2)"
  by (cases "arr rs < length \<sigma>")
     (simp_all add: Routes_Wrap_def wrap_slice_eq wrap_array_twice list_update_beyond)

lemma Routes_Wrap_Nil: "Routes_Wrap \<sigma> rs [] = (\<sigma>, rs)"
  by (simp add: Routes_Wrap_def wrap_slice_eq)


section \<open>What append and the loops do to a memory\<close>

lemma frame_refl [simp]: "frame \<sigma> \<sigma> A"
  by (simp add: frame_def)

lemma frame_trans:
  "frame \<sigma> \<sigma>1 A \<Longrightarrow> frame \<sigma>1 \<sigma>2 B \<Longrightarrow> frame \<sigma> \<sigma>2 (A \<union> B)"
  by (auto simp: frame_def)

lemma frame_mono: "frame \<sigma> \<sigma>' A \<Longrightarrow> A \<inter> {..<length \<sigma>} \<subseteq> B \<Longrightarrow> frame \<sigma> \<sigma>' B"
  by (auto simp: frame_def)

lemma frame_length: "frame \<sigma> \<sigma>' A \<Longrightarrow> length \<sigma> \<le> length \<sigma>'"
  by (simp add: frame_def)

lemma frame_wf_slice: "frame \<sigma> \<sigma>' A \<Longrightarrow> wf_slice \<sigma> s \<Longrightarrow> wf_slice \<sigma>' s"
  by (auto simp: frame_def wf_slice_def)

lemma frame_cells:
  "frame \<sigma> \<sigma>' A \<Longrightarrow> wf_slice \<sigma> s \<Longrightarrow> 0 < cap s \<longrightarrow> arr s \<notin> A \<Longrightarrow> cells \<sigma>' s = cells \<sigma> s"
  by (cases "0 < cap s") (auto simp: frame_def wf_slice_def cells_def)

lemma arrays_of_slices_simps [simp]:
  "arrays_of_slices [] = []"
  "arrays_of_slices (s # ss) = (if 0 < cap s then [arr s] else []) @ arrays_of_slices ss"
  "arrays_of_slices (ss @ ts) = arrays_of_slices ss @ arrays_of_slices ts"
  by (simp_all add: arrays_of_slices_def)



lemma wrap_slice_props:
  assumes wf: "wf_slice \<sigma> s"
  shows "cells (wrap_slice s mw \<sigma>) s = map (\<lambda>r. Route_Wrap r mw) (cells \<sigma> s)"
    and "wf_slice (wrap_slice s mw \<sigma>) s"
    and "frame \<sigma> (wrap_slice s mw \<sigma>) (set (arrays_of_slices [s]))"
proof -
  show "cells (wrap_slice s mw \<sigma>) s = map (\<lambda>r. Route_Wrap r mw) (cells \<sigma> s)"
  proof (cases "0 < cap s")
    case False
    with wf have "len s = 0" by (simp add: wf_slice_def)
    then show ?thesis by (simp add: cells_def)
  next
    case True
    with wf have b: "arr s < length \<sigma>" "off s + cap s \<le> length (\<sigma> ! arr s)" "len s \<le> cap s"
      by (auto simp: wf_slice_def)
    have "take (len s) (drop (off s) (wrap_array (off s) (len s) mw (\<sigma> ! arr s)))
            = map (\<lambda>r. Route_Wrap r mw) (take (len s) (drop (off s) (\<sigma> ! arr s)))"
      using b by (intro nth_equalityI) (auto simp: nth_wrap_array)
    with b show ?thesis by (simp add: cells_def wrap_slice_eq)
  qed
  show "wf_slice (wrap_slice s mw \<sigma>) s"
    using wf by (auto simp: wf_slice_def wrap_slice_eq nth_list_update)
  show "frame \<sigma> (wrap_slice s mw \<sigma>) (set (arrays_of_slices [s]))"
  proof (cases "0 < cap s")
    case False
    with wf have "len s = 0" by (simp add: wf_slice_def)
    then show ?thesis by (simp add: wrap_slice_eq)
  next
    case True
    with wf have "arr s < length \<sigma>" by (simp add: wf_slice_def)
    with True show ?thesis by (auto simp: frame_def wrap_slice_eq nth_list_update)
  qed
qed


section \<open>The redirect handler\<close>

text \<open>
  C6. For every pair of port suffixes and every request, the handler \<^verbatim>\<open>Redirect\<close>
  returns sets the host to \<^verbatim>\<open>"localhost"+HTTPS\<close> when it is \<^verbatim>\<open>"localhost"+HTTP\<close> and
  leaves it otherwise; the target is \<^verbatim>\<open>"https://"\<close>, the host, the path, and
  \<^verbatim>\<open>"?"\<close> with the raw query exactly when the raw query is not empty; and it answers
  with one redirect to that target with status 307.
\<close>

theorem Redirect_target:
  "\<exists>x'. call (Redirect HTTP HTTPS) x = Some x'
     \<and> host (req x') = (if host (req x) = ''localhost'' @ HTTP then ''localhost'' @ HTTPS else host (req x))
     \<and> path (req x') = path (req x) \<and> rawQuery (req x') = rawQuery (req x)
     \<and> redirects x' = redirects x @
          [(''https://'' @ host (req x') @ path (req x)
              @ (if rawQuery (req x) = [] then [] else ''?'' @ rawQuery (req x)), 307)]"
  by (simp add: Redirect_def redirect_target_def StatusTemporaryRedirect_def Let_def)

theorem Redirect_target_witness:
  "\<exists>x'. call (Redirect '':8080'' '':8443'')
            \<lparr>req = \<lparr>host = ''localhost:8080'', path = ''/foo'', rawQuery = ''a=1''\<rparr>, redirects = []\<rparr> = Some x'
     \<and> host (req x') = ''localhost:8443''
     \<and> redirects x' = [(''https://localhost:8443/foo?a=1'', 307)]"
  using Redirect_target [of "'':8080''" "'':8443''"
      "\<lparr>req = \<lparr>host = ''localhost:8080'', path = ''/foo'', rawQuery = ''a=1''\<rparr>, redirects = []\<rparr>"]
  by auto

lemma Redirect_examples:
  "call (Redirect '':8080'' '':8443'')
      \<lparr>req = \<lparr>host = ''localhost:8080'', path = ''/foo'', rawQuery = []\<rparr>, redirects = []\<rparr>
    = Some \<lparr>req = \<lparr>host = ''localhost:8443'', path = ''/foo'', rawQuery = []\<rparr>,
            redirects = [(''https://localhost:8443/foo'', 307)]\<rparr>"
  "call (Redirect '':8080'' '':8443'')
      \<lparr>req = \<lparr>host = ''example.org'', path = ''/foo'', rawQuery = ''a=1''\<rparr>, redirects = []\<rparr>
    = Some \<lparr>req = \<lparr>host = ''example.org'', path = ''/foo'', rawQuery = ''a=1''\<rparr>,
            redirects = [(''https://example.org/foo?a=1'', 307)]\<rparr>"
  by (simp_all add: Redirect_def redirect_target_def StatusTemporaryRedirect_def Let_def)

section \<open>Wrapping twice, and wrapping with nothing\<close>

text \<open>
  C8. Wrapping a route with \<open>[m1]\<close> and the result with \<open>[m2]\<close> gives the route that
  wrapping once with \<open>[m1, m2]\<close> gives, and the same holds for \<^verbatim>\<open>Routes.Wrap\<close>: the
  store and the slice after the two calls are those after the one call. The same holds
  for any two sequences of middleware.
\<close>

theorem wrap_then_wrap:
  "Route_Wrap (Route_Wrap r [m1]) [m2] = Route_Wrap r [m1, m2]
   \<and> Routes_Wrap (fst (Routes_Wrap \<sigma> rs [m1])) (snd (Routes_Wrap \<sigma> rs [m1])) [m2]
       = Routes_Wrap \<sigma> rs [m1, m2]
   \<and> Route_Wrap (Route_Wrap r mw1) mw2 = Route_Wrap r (mw1 @ mw2)
   \<and> Routes_Wrap (fst (Routes_Wrap \<sigma> rs mw1)) (snd (Routes_Wrap \<sigma> rs mw1)) mw2
       = Routes_Wrap \<sigma> rs (mw1 @ mw2)"
  using Routes_Wrap_twice [of \<sigma> rs "[m1]" "[m2]"] Routes_Wrap_twice [of \<sigma> rs mw1 mw2]
    Route_Wrap_append [of r "[m1]" "[m2]"] Route_Wrap_append [of r mw1 mw2]
  by simp

text \<open>
  C10. With no middleware, \<^verbatim>\<open>Handle\<close> returns the route whose handler is the adapted
  input and nothing around it (for a function value, that function), \<^verbatim>\<open>Route.Wrap\<close>
  returns the route it was called on, and \<^verbatim>\<open>Routes.Wrap\<close> leaves the store, and so
  every handler, as it was.
\<close>

theorem empty_middleware_is_identity:
  "(recognized h \<longrightarrow>
      (\<exists>h'. handler_switch h = Inr h' \<and> (\<forall>w. call h' w = serves h w)
          \<and> Handle p h [] = Inr \<lparr>pattern = p, fn = h'\<rparr>))
   \<and> Handle p (PlainFunc f) [] = Inr \<lparr>pattern = p, fn = f\<rparr>
   \<and> Handle p (HandlerFuncValue (Fn b)) [] = Inr \<lparr>pattern = p, fn = Fn b\<rparr>
   \<and> Handle p (ServeHTTP b) [] = Inr \<lparr>pattern = p, fn = Fn b\<rparr>
   \<and> Route_Wrap r [] = r
   \<and> Routes_Wrap \<sigma> rs [] = (\<sigma>, rs)"
  using handler_switch_recognized [of h]
  by (auto simp: Handle_eq Route_Wrap_simps Routes_Wrap_Nil)

theorem empty_middleware_is_identity_witness:
  "recognized (HandlerFuncValue (trace_handler 0))
   \<and> (\<exists>h'. Handle ''/a'' (HandlerFuncValue (trace_handler 0)) [] = Inr \<lparr>pattern = ''/a'', fn = h'\<rparr>
         \<and> call h' [] = Some [0])"
proof -
  have a: "recognized (HandlerFuncValue (trace_handler 0))" by simp
  from empty_middleware_is_identity [of "HandlerFuncValue (trace_handler 0)" "''/a''"] a
  obtain h' where h: "\<forall>w. call h' w = serves (HandlerFuncValue (trace_handler 0)) w"
      "Handle ''/a'' (HandlerFuncValue (trace_handler 0)) [] = Inr \<lparr>pattern = ''/a'', fn = h'\<rparr>"
    by blast
  from h(1) have "call h' [] = Some [0]" by (simp add: trace_handler_def)
  with a h(2) show ?thesis by blast
qed


section \<open>Handlers of the concrete runs\<close>

lemma call_logging:
  "call (logging k f) t = map_option (\<lambda>t. t @ [k + 100]) (call f (t @ [k]))"
  by (simp add: logging_def call_onion)

lemma call_trace_handler: "call (trace_handler k) t = Some (t @ [k])"
  by (simp add: trace_handler_def)

lemma logging_twice_differs: "logging k (logging k (trace_handler j)) \<noteq> logging k (trace_handler j)"
proof
  assume "logging k (logging k (trace_handler j)) = logging k (trace_handler j)"
  then have "call (logging k (logging k (trace_handler j))) [] = call (logging k (trace_handler j)) []"
    by simp
  then show False by (simp add: call_logging call_trace_handler)
qed

lemma logging_once_differs: "logging k (trace_handler j) \<noteq> trace_handler j"
proof
  assume "logging k (trace_handler j) = trace_handler j"
  then have "call (logging k (trace_handler j)) [] = call (trace_handler j) []"
    by simp
  then show False by (simp add: call_logging call_trace_handler)
qed

section \<open>Value semantics of the two wraps\<close>

text \<open>
  C5, as stated, fails for \<^verbatim>\<open>Routes.Wrap\<close>: after
  \<^verbatim>\<open>rs := Routes{Handle("/a", h)}; rs.Wrap(m)\<close> the caller's \<^verbatim>\<open>rs\<close> holds \<open>m h\<close>.
\<close>

theorem Routes_Wrap_counterexample:
  "cells (fst (Routes_Wrap ex_store ex_slice [logging 1])) ex_slice \<noteq> cells ex_store ex_slice"
  by (simp add: Routes_Wrap_def wrap_slice_eq wrap_array_def ex_store_def ex_slice_def ex_route_def
      cells_def Route_Wrap_simps logging_once_differs)

text \<open>
  C5. \<^verbatim>\<open>Route.Wrap\<close> returns a route with the pattern of its receiver and the handler
  wrapped further; the receiver is a copy and the caller's route is not touched.
  \<^verbatim>\<open>Routes.Wrap\<close> returns the slice it was called on, over the same backing array, and
  wraps its elements in place: the caller's collection holds the wrapped handlers
  afterwards, and no other array changes.
\<close>

theorem Wrap_value_and_in_place:
  "Route_Wrap r mw = \<lparr>pattern = pattern r, fn = wrapped mw (fn r)\<rparr>
   \<and> snd (Routes_Wrap \<sigma> rs mw) = rs
   \<and> (wf_slice \<sigma> rs \<longrightarrow>
        cells (fst (Routes_Wrap \<sigma> rs mw)) rs
          = map (\<lambda>r. \<lparr>pattern = pattern r, fn = wrapped mw (fn r)\<rparr>) (cells \<sigma> rs)
      \<and> frame \<sigma> (fst (Routes_Wrap \<sigma> rs mw)) (set (arrays_of_slices [rs])))"
  using wrap_slice_props(1,3) [of \<sigma> rs mw]
  by (simp add: Routes_Wrap_def Route_Wrap_eq)

theorem Wrap_value_and_in_place_witness:
  "wf_slice ex_store ex_slice
   \<and> snd (Routes_Wrap ex_store ex_slice [logging 1]) = ex_slice
   \<and> cells ex_store ex_slice = [\<lparr>pattern = ''/a'', fn = trace_handler 0\<rparr>]
   \<and> cells (fst (Routes_Wrap ex_store ex_slice [logging 1])) ex_slice
       = [\<lparr>pattern = ''/a'', fn = logging 1 (trace_handler 0)\<rparr>]"
proof -
  have h: "wf_slice ex_store ex_slice"
    by (simp add: wf_slice_def ex_store_def ex_slice_def)
  have c: "cells ex_store ex_slice = [\<lparr>pattern = ''/a'', fn = trace_handler 0\<rparr>]"
    by (simp add: cells_def ex_store_def ex_slice_def ex_route_def)
  from Wrap_value_and_in_place [of _ "[logging 1]" ex_store ex_slice] h c
  show ?thesis by simp
qed


section \<open>Fatal exits\<close>

lemma Group_Add_accepted_step:
  "accepted v \<Longrightarrow> \<exists>mem' g'. Group_Add_step gr mem g v = Inr (mem', g')"
  by (cases v) (simp_all add: Let_def split: prod.split)

lemma Group_Add_prefix:
  "list_all accepted pre \<Longrightarrow>
   \<exists>mem' g'. Group_Add gr mem g pre = Inr (mem', g')
     \<and> (\<forall>rest. Group_Add gr mem g (pre @ rest) = Group_Add gr mem' g' rest)"
proof (induction pre arbitrary: mem g)
  case Nil
  show ?case by simp
next
  case (Cons v pre)
  then obtain mem1 g1 where s: "Group_Add_step gr mem g v = Inr (mem1, g1)"
    using Group_Add_accepted_step [of v gr mem g] by auto
  from Cons.IH [of mem1 g1] Cons.prems show ?case by (simp add: s)
qed

lemma Group_Add_rejected_step:
  "\<not> accepted v \<Longrightarrow> \<exists>msg. Group_Add_step gr mem g v = Inl (Exit msg)"
  by (cases v) simp_all

lemma Router_Add_accepted_step:
  "accepted v \<Longrightarrow> \<exists>mem' r'. Router_Add_step gr mem r v = Inr (mem', r')"
  by (cases v) (simp_all add: Let_def split: prod.split)

lemma Router_Add_prefix:
  "list_all accepted pre \<Longrightarrow>
   \<exists>mem' r'. Router_Add gr mem r pre = Inr (mem', r')
     \<and> (\<forall>rest. Router_Add gr mem r (pre @ rest) = Router_Add gr mem' r' rest)"
proof (induction pre arbitrary: mem r)
  case Nil
  show ?case by simp
next
  case (Cons v pre)
  then obtain mem1 r1 where s: "Router_Add_step gr mem r v = Inr (mem1, r1)"
    using Router_Add_accepted_step [of v gr mem r] by auto
  from Cons.IH [of mem1 r1] Cons.prems show ?case by (simp add: s)
qed

lemma Router_Add_rejected_step:
  "\<not> accepted v \<Longrightarrow> \<exists>msg. Router_Add_step gr mem r v = Inl (Exit msg)"
  by (cases v) simp_all

lemma rejected_split:
  "\<not> list_all accepted vs \<Longrightarrow>
   \<exists>pre v rest. vs = pre @ v # rest \<and> list_all accepted pre \<and> \<not> accepted v"
proof (induction vs)
  case Nil
  then show ?case by simp
next
  case (Cons a vs)
  show ?case
  proof (cases "accepted a")
    case False
    then have "a # vs = [] @ a # vs \<and> list_all accepted [] \<and> \<not> accepted a" by simp
    then show ?thesis by blast
  next
    case True
    with Cons obtain pre v rest where "vs = pre @ v # rest" "list_all accepted pre" "\<not> accepted v"
      by auto
    with True have "a # vs = (a # pre) @ v # rest \<and> list_all accepted (a # pre) \<and> \<not> accepted v"
      by simp
    then show ?thesis by blast
  qed
qed

lemma Group_Add_fatal_iff:
  "(\<exists>msg. Group_Add gr mem g vs = Inl (Exit msg)) \<longleftrightarrow> \<not> list_all accepted vs"
proof
  assume "\<not> list_all accepted vs"
  then obtain pre v rest where vs: "vs = pre @ v # rest" "list_all accepted pre" "\<not> accepted v"
    using rejected_split by blast
  from Group_Add_prefix [OF vs(2), of gr mem g] obtain mem' g'
    where "Group_Add gr mem g (pre @ v # rest) = Group_Add gr mem' g' (v # rest)" by blast
  moreover obtain msg where "Group_Add_step gr mem' g' v = Inl (Exit msg)"
    using Group_Add_rejected_step [OF vs(3)] by blast
  ultimately show "\<exists>msg. Group_Add gr mem g vs = Inl (Exit msg)" by (simp add: vs(1))
next
  assume l: "\<exists>msg. Group_Add gr mem g vs = Inl (Exit msg)"
  show "\<not> list_all accepted vs"
  proof
    assume "list_all accepted vs"
    from Group_Add_prefix [OF this, of gr mem g] l show False by auto
  qed
qed

lemma Router_Add_fatal_iff:
  "(\<exists>msg. Router_Add gr mem r vs = Inl (Exit msg)) \<longleftrightarrow> \<not> list_all accepted vs"
proof
  assume "\<not> list_all accepted vs"
  then obtain pre v rest where vs: "vs = pre @ v # rest" "list_all accepted pre" "\<not> accepted v"
    using rejected_split by blast
  from Router_Add_prefix [OF vs(2), of gr mem r] obtain mem' r'
    where "Router_Add gr mem r (pre @ v # rest) = Router_Add gr mem' r' (v # rest)" by blast
  moreover obtain msg where "Router_Add_step gr mem' r' v = Inl (Exit msg)"
    using Router_Add_rejected_step [OF vs(3)] by blast
  ultimately show "\<exists>msg. Router_Add gr mem r vs = Inl (Exit msg)" by (simp add: vs(1))
next
  assume l: "\<exists>msg. Router_Add gr mem r vs = Inl (Exit msg)"
  show "\<not> list_all accepted vs"
  proof
    assume "list_all accepted vs"
    from Router_Add_prefix [OF this, of gr mem r] l show False by auto
  qed
qed

lemma Group_Add_string:
  "list_all accepted pre \<Longrightarrow>
   Group_Add gr mem g (pre @ ArgString s # rest) = Inl (Exit ''use srv.Handle() to add an endpoint'')"
  using Group_Add_prefix [of pre gr mem g] by auto

lemma Router_Add_string:
  "list_all accepted pre \<Longrightarrow>
   Router_Add gr mem r (pre @ ArgString s # rest) = Inl (Exit ''use srv.Handle() to add endpoint'')"
  using Router_Add_prefix [of pre gr mem r] by auto

lemma Handle_fatal_iff:
  "(\<exists>r. Handle p h mw = Inr r) \<longleftrightarrow> recognized h"
  by (cases h) (simp_all add: Handle_eq)

lemma Handle_unsupported:
  "Handle p (Unsupported ty) mw
     = Inl (Exit (''require either http.Handler or http.HandlerFunc got: '' @ ty))"
  by (simp add: Handle_eq)

lemma Compose_fatal_iff:
  "(\<exists>msg. Compose n gr rf mem r vs = Some (Inl (Exit msg))) \<longleftrightarrow> \<not> list_all accepted vs"
proof (cases "Router_Add gr mem r vs")
  case (Inl e)
  then have "Compose n gr rf mem r vs = Some (Inl e)" by (simp add: Compose_def)
  with Inl Router_Add_fatal_iff [of gr mem r vs] show ?thesis
    by (cases e) auto
next
  case (Inr p)
  then have "Compose n gr rf mem r vs \<noteq> Some (Inl e)" for e
    by (cases p) (simp add: Compose_def split: option.split sum.split prod.split)
  with Inr Router_Add_fatal_iff [of gr mem r vs] show ?thesis by auto
qed

text \<open>
  C7. Every configuration error ends the process after a diagnostic: \<^verbatim>\<open>Handle\<close>
  returns a route exactly for the recognized inputs and exits, naming the type it
  received, for any other; both \<^verbatim>\<open>Add\<close> methods (and \<^verbatim>\<open>Compose\<close>, which adds first)
  exit exactly when some argument is not a group, a slice of groups, a route or a slice
  of routes; when the first such argument is a string, the diagnostic points to
  \<^verbatim>\<open>Handle\<close>. The exit is the only error in the results of \<^verbatim>\<open>Handle\<close> and of the two
  \<^verbatim>\<open>Add\<close>; \<^verbatim>\<open>Compose\<close> can also panic, in the mux or on a nil middleware, which is not
  an exit (see C3).
\<close>

theorem configuration_errors_are_fatal:
  "((\<exists>route. Handle p h mw = Inr route) \<longleftrightarrow> recognized h)
   \<and> (\<forall>ty. Handle p (Unsupported ty) mw
          = Inl (Exit (''require either http.Handler or http.HandlerFunc got: '' @ ty)))
   \<and> ((\<exists>msg. Group_Add gr mem g vs = Inl (Exit msg)) \<longleftrightarrow> \<not> list_all accepted vs)
   \<and> ((\<exists>msg. Router_Add gr mem r vs = Inl (Exit msg)) \<longleftrightarrow> \<not> list_all accepted vs)
   \<and> ((\<exists>msg. Compose n gr rf mem r vs = Some (Inl (Exit msg))) \<longleftrightarrow> \<not> list_all accepted vs)
   \<and> (\<forall>pre s rest. list_all accepted pre \<longrightarrow>
          Group_Add gr mem g (pre @ ArgString s # rest)
            = Inl (Exit ''use srv.Handle() to add an endpoint'')
        \<and> Router_Add gr mem r (pre @ ArgString s # rest)
            = Inl (Exit ''use srv.Handle() to add endpoint''))"
  using Handle_fatal_iff [of p h mw] Handle_unsupported [of p _ mw]
    Group_Add_fatal_iff [of gr mem g vs] Router_Add_fatal_iff [of gr mem r vs]
    Compose_fatal_iff [of n gr rf mem r vs] Group_Add_string [of _ gr mem g]
    Router_Add_string [of _ gr mem r]
  by simp

theorem configuration_errors_are_fatal_witness:
  "list_all accepted [ArgRoute \<lparr>pattern = ''/a'', fn = trace_handler 0\<rparr>]
   \<and> Group_Add doubling empty_memory zero_Group
        ([ArgRoute \<lparr>pattern = ''/a'', fn = trace_handler 0\<rparr>] @ ArgString ''/b'' # [])
       = Inl (Exit ''use srv.Handle() to add an endpoint'')
   \<and> Router_Add doubling empty_memory
        \<lparr>mux = None, rgroups = nil_slice, rroutes = nil_slice, rwrap = nil_slice\<rparr>
        ([ArgRoute \<lparr>pattern = ''/a'', fn = trace_handler 0\<rparr>] @ ArgString ''/b'' # [])
       = Inl (Exit ''use srv.Handle() to add endpoint'')"
proof -
  have a: "list_all accepted [ArgRoute \<lparr>pattern = ''/a'', fn = trace_handler 0\<rparr>]"
    by simp
  from configuration_errors_are_fatal [of "''/a''" "PlainFunc (trace_handler 0)" "[]" doubling
      empty_memory zero_Group "[]" "\<lparr>mux = None, rgroups = nil_slice, rroutes = nil_slice, rwrap = nil_slice\<rparr>"
      0 no_refusal] a
  show ?thesis by blast
qed


section \<open>The depth of the calls\<close>



lemma compose_fuel:
  "compose n gr G M \<sigma> g = Some x \<Longrightarrow> compose (Suc n) gr G M \<sigma> g = Some x"
  "compose_groups n gr G M \<sigma> acc gs = Some x \<Longrightarrow> compose_groups (Suc n) gr G M \<sigma> acc gs = Some x"
proof (induction n gr G M \<sigma> g and n gr G M \<sigma> acc gs arbitrary: x and x rule: compose_compose_groups.induct)
  case (1 gr G M \<sigma> g)
  then show ?case by simp
next
  case (2 n gr G M \<sigma> g)
  from "2.prems" obtain y where y: "compose_groups n gr G M \<sigma> (routes g) (cells G (groups g)) = Some y"
    by (auto split: option.splits)
  from "2.IH" [OF y] have "compose_groups (Suc n) gr G M \<sigma> (routes g) (cells G (groups g)) = Some y" .
  with y "2.prems" show ?case by (simp (no_asm_use)) simp
next
  case (3 n gr G M \<sigma> acc)
  then show ?case by simp
next
  case (4 n gr G M \<sigma> acc sub rest)
  from "4.prems" obtain y where y: "compose n gr G M \<sigma> sub = Some y"
    by (auto split: option.splits)
  note s = "4.IH"(1) [OF y]
  show ?case
  proof (cases y)
    case (Inl e)
    with y s "4.prems" show ?thesis by (auto simp del: compose.simps)
  next
    case (Inr p)
    obtain \<sigma>1 out where p: "p = (\<sigma>1, out)" by (cases p)
    obtain \<sigma>2 acc' where a: "append_routes gr \<sigma>1 acc (cells \<sigma>1 out) = (\<sigma>2, acc')"
      by (cases "append_routes gr \<sigma>1 acc (cells \<sigma>1 out)")
    from "4.prems" y Inr p a have r: "compose_groups n gr G M \<sigma>2 acc' rest = Some x"
      by (simp del: compose.simps)
    from "4.IH"(2) [OF y Inr p [symmetric] a [symmetric] r] 
    have "compose_groups (Suc n) gr G M \<sigma>2 acc' rest = Some x" .
    with s y Inr p a show ?thesis by (simp del: compose.simps)
  qed
qed


section \<open>The concrete memories\<close>

text \<open>
  The values of the concrete runs are what the calls of the package build.
\<close>

lemmas ex_defs = ex_mem_def ex_store_def ex_route_def ex_group_def ex_nested_def ex_slice_def
  ex_mware_def nil_slice_def zero_Group_def empty_memory_def ex_nested_mem_def ex_router_def
  ex_router1_def ex_router2_def ex_routers_mem_def

lemmas run_defs = append_routes_def append_slice_def Let_def doubling_def cells_def
  wrap_all_def wrap_slice_eq wrap_array_def Route_Wrap_simps wrap_index_eq refused_def no_refusal_def
  Group_Wrap_def NewRouter_def Compose_def

lemma ex_built:
  "Group_Add doubling empty_memory zero_Group [ArgRoute ex_route]
     = Inr (empty_memory\<lparr>route_mem := ex_store\<rparr>, zero_Group\<lparr>routes := ex_slice\<rparr>)"
  "Group_Wrap doubling (empty_memory\<lparr>route_mem := ex_store\<rparr>) (zero_Group\<lparr>routes := ex_slice\<rparr>)
       [Some (logging 1)]
     = (ex_mem, ex_group)"
  "Group_Add doubling ex_mem ex_group [ArgGroup ex_group] = Inr (ex_nested_mem, ex_nested)"
  by (simp_all add: ex_defs run_defs)

lemma ex_routers_built:
  "NewRouter ex_mem = (ex_mem\<lparr>muxes := [[]]\<rparr>, ex_router)"
  "Router_Add doubling (ex_mem\<lparr>muxes := [[]]\<rparr>) ex_router [ArgGroup ex_group]
     = Inr (ex_mem\<lparr>group_mem := [[ex_group]], muxes := [[]]\<rparr>, ex_router1)"
  "NewRouter (ex_mem\<lparr>group_mem := [[ex_group]], muxes := [[]]\<rparr>)
     = (ex_mem\<lparr>group_mem := [[ex_group]], muxes := [[], []]\<rparr>, ex_router\<lparr>mux := Some 1\<rparr>)"
  "Router_Add doubling (ex_mem\<lparr>group_mem := [[ex_group]], muxes := [[], []]\<rparr>) (ex_router\<lparr>mux := Some 1\<rparr>)
       [ArgGroup ex_group]
     = Inr (ex_routers_mem, ex_router2)"
  by (simp_all add: ex_defs run_defs)

lemma compose_ex_group:
  "compose (Suc n) gr G ex_mware [[\<lparr>pattern = p, fn = f\<rparr>]] ex_group
     = Some (Inr ([[\<lparr>pattern = p, fn = logging 1 f\<rparr>]], ex_slice))"
  by (simp add: ex_defs run_defs)

lemma ex_cyclic_built:
  "Group_Add doubling (empty_memory :: nat list memory) zero_Group
       [ArgGroup zero_Group, ArgGroup zero_Group, ArgGroup zero_Group]
     = Inr (empty_memory\<lparr>group_mem := [[zero_Group], [zero_Group, zero_Group],
                                           [zero_Group, zero_Group, zero_Group, zero_Group]]\<rparr>,
            zero_Group\<lparr>groups := \<lparr>arr = 2, off = 0, len = 3, cap = 4\<rparr>\<rparr>)"
  "Group_Add doubling
       ((empty_memory :: nat list memory)\<lparr>group_mem := [[zero_Group], [zero_Group, zero_Group],
                                           [zero_Group, zero_Group, zero_Group, zero_Group]]\<rparr>)
       (zero_Group\<lparr>groups := \<lparr>arr = 2, off = 0, len = 3, cap = 4\<rparr>\<rparr>) [ArgGroup zero_Group]
     = Inr (empty_memory\<lparr>group_mem := [[zero_Group], [zero_Group, zero_Group],
                                           [zero_Group, zero_Group, zero_Group, zero_Group]]\<rparr>,
            ex_cyclic)"
  "Group_Add doubling
       ((empty_memory :: nat list memory)\<lparr>group_mem := [[zero_Group], [zero_Group, zero_Group],
                                           [zero_Group, zero_Group, zero_Group, zero_Group]]\<rparr>)
       (zero_Group\<lparr>groups := \<lparr>arr = 2, off = 0, len = 3, cap = 4\<rparr>\<rparr>) [ArgGroup ex_cyclic]
     = Inr (empty_memory\<lparr>group_mem := ex_cyclic_groups\<rparr>, ex_cyclic)"
  by (simp_all add: ex_cyclic_def ex_cyclic_groups_def empty_memory_def zero_Group_def nil_slice_def
      append_slice_def Let_def doubling_def cells_def)

lemma compose_zero_Group:
  "compose (Suc n) gr G M \<sigma> zero_Group = Some (Inr (\<sigma>, nil_slice))"
  by (simp add: zero_Group_def nil_slice_def cells_def wrap_all_def wrap_slice_def split: option.split)

lemma compose_ex_cyclic: "compose n gr ex_cyclic_groups M \<sigma> ex_cyclic = None"
proof (induction n arbitrary: \<sigma>)
  case 0
  show ?case by simp
next
  case (Suc n)
  have c: "cells ex_cyclic_groups (groups ex_cyclic) = [zero_Group, zero_Group, zero_Group, ex_cyclic]"
    by (simp add: ex_cyclic_groups_def ex_cyclic_def cells_def)
  have r: "routes ex_cyclic = nil_slice" by (simp add: ex_cyclic_def)
  have a: "append_routes gr \<sigma> nil_slice (cells \<sigma> nil_slice) = (\<sigma>, nil_slice)"
    by (simp add: append_routes_def append_slice_def nil_slice_def cells_def)
  show ?case
  proof (cases n)
    case 0
    then show ?thesis by (simp add: c)
  next
    case (Suc k)
    with Suc.IH [of \<sigma>] have "compose (Suc k) gr ex_cyclic_groups M \<sigma> ex_cyclic = None" by simp
    then show ?thesis
      unfolding Suc compose.simps(2) [of "Suc k"] c r compose_groups.simps compose_zero_Group
        option.case sum.case prod.case a
      by simp
  qed
qed

text \<open>
  After \<^verbatim>\<open>g3 := Group{}.Wrap(m1).Wrap(m2).Wrap(m3)\<close> the slice of middleware has a spare
  cell: \<^verbatim>\<open>ga := g3.Wrap(m4); gb := g3.Wrap(m5)\<close> write the same cell, and \<^verbatim>\<open>ga\<close> holds
  \<^verbatim>\<open>m5\<close> afterwards.
\<close>

lemma sibling_wrap_shares_the_cell:
  "Group_Wrap doubling (empty_memory\<lparr>mware_mem := [[Some m1], [Some m1, Some m2], [Some m1, Some m2, Some m3, None]]\<rparr>)
       (zero_Group\<lparr>wrap := \<lparr>arr = 2, off = 0, len = 3, cap = 4\<rparr>\<rparr>) [Some m4]
     = (empty_memory\<lparr>mware_mem := [[Some m1], [Some m1, Some m2], [Some m1, Some m2, Some m3, Some m4]]\<rparr>,
        zero_Group\<lparr>wrap := \<lparr>arr = 2, off = 0, len = 4, cap = 4\<rparr>\<rparr>)"
  "Group_Wrap doubling (empty_memory\<lparr>mware_mem := [[Some m1], [Some m1, Some m2], [Some m1, Some m2, Some m3, Some m4]]\<rparr>)
       (zero_Group\<lparr>wrap := \<lparr>arr = 2, off = 0, len = 3, cap = 4\<rparr>\<rparr>) [Some m5]
     = (empty_memory\<lparr>mware_mem := [[Some m1], [Some m1, Some m2], [Some m1, Some m2, Some m3, Some m5]]\<rparr>,
        zero_Group\<lparr>wrap := \<lparr>arr = 2, off = 0, len = 4, cap = 4\<rparr>\<rparr>)"
  by (simp_all add: Group_Wrap_def empty_memory_def zero_Group_def append_slice_def Let_def)


section \<open>Composing a group\<close>

text \<open>
  C4. The claim: \<^verbatim>\<open>compose\<close> leaves the fields of the group it is called on as the
  caller sees them, and composing the same group twice gives equal route lists. The
  code at \<^verbatim>\<open>g0 := Group{}.Add(Handle("/a", h)).Wrap(m)\<close>: \<^verbatim>\<open>g0.routes\<close> is not
  reallocated, so the loop that wraps assigns to the backing array the caller's
  \<^verbatim>\<open>g0.routes\<close> views. After the first call the caller's route holds \<open>m h\<close>, no longer
  \<open>h\<close>, and the second call returns \<open>m (m h)\<close> where the first returned \<open>m h\<close>.
\<close>

theorem compose_rewraps_the_receiver:
  "compose (Suc 0) doubling (group_mem ex_mem) (mware_mem ex_mem) (route_mem ex_mem) ex_group
     = Some (Inr ([[\<lparr>pattern = ''/a'', fn = logging 1 (trace_handler 0)\<rparr>]], ex_slice))
   \<and> compose (Suc 0) doubling (group_mem ex_mem) (mware_mem ex_mem)
        [[\<lparr>pattern = ''/a'', fn = logging 1 (trace_handler 0)\<rparr>]] ex_group
     = Some (Inr ([[\<lparr>pattern = ''/a'', fn = logging 1 (logging 1 (trace_handler 0))\<rparr>]], ex_slice))
   \<and> cells (route_mem ex_mem) (routes ex_group) = [\<lparr>pattern = ''/a'', fn = trace_handler 0\<rparr>]
   \<and> cells [[\<lparr>pattern = ''/a'', fn = logging 1 (trace_handler 0)\<rparr>]] (routes ex_group)
     = [\<lparr>pattern = ''/a'', fn = logging 1 (trace_handler 0)\<rparr>]
   \<and> cells [[\<lparr>pattern = ''/a'', fn = logging 1 (trace_handler 0)\<rparr>]] ex_slice
     = [\<lparr>pattern = ''/a'', fn = logging 1 (trace_handler 0)\<rparr>]
   \<and> cells [[\<lparr>pattern = ''/a'', fn = logging 1 (logging 1 (trace_handler 0))\<rparr>]] ex_slice
     = [\<lparr>pattern = ''/a'', fn = logging 1 (logging 1 (trace_handler 0))\<rparr>]
   \<and> cells [[\<lparr>pattern = ''/a'', fn = logging 1 (trace_handler 0)\<rparr>]] (routes ex_group)
       \<noteq> cells (route_mem ex_mem) (routes ex_group)
   \<and> cells [[\<lparr>pattern = ''/a'', fn = logging 1 (logging 1 (trace_handler 0))\<rparr>]] ex_slice
       \<noteq> cells [[\<lparr>pattern = ''/a'', fn = logging 1 (trace_handler 0)\<rparr>]] ex_slice
   \<and> call (trace_handler 0) [] = Some [0]
   \<and> call (logging 1 (trace_handler 0)) [] = Some [1, 0, 101]
   \<and> call (logging 1 (logging 1 (trace_handler 0))) [] = Some [1, 1, 0, 101, 101]"
proof -
  have m: "mware_mem ex_mem = ex_mware" "route_mem ex_mem = [[\<lparr>pattern = ''/a'', fn = trace_handler 0\<rparr>]]"
    by (simp_all add: ex_mem_def ex_store_def ex_route_def)
  show ?thesis
    unfolding m compose_ex_group
    by (simp add: ex_group_def ex_slice_def cells_def call_logging call_trace_handler
        logging_once_differs logging_twice_differs)
qed

text \<open>
  C2. The claim: \<^verbatim>\<open>g.compose()\<close> returns the routes \<open>R\<close> of \<^verbatim>\<open>g\<close> followed by what each
  sub-group composes to, every handler wrapped by the middleware of \<^verbatim>\<open>g\<close>. The code at
  \<^verbatim>\<open>g0 := Group{}.Add(Handle("/a", h)).Wrap(m); g := g0.Add(g0)\<close>: \<^verbatim>\<open>g\<close> and its
  sub-group view the same array of routes, and composing the sub-group wraps, in place,
  the route that \<^verbatim>\<open>g\<close> holds, before \<^verbatim>\<open>g\<close> copies and wraps it. With \<open>R = [h]\<close> and the
  sub-group composing to \<open>[m h]\<close> the claim gives \<open>[m h, m (m h)]\<close>; \<^verbatim>\<open>g.compose()\<close>
  returns \<open>[m (m h), m (m h)]\<close>. The write through the shared array is the one of C4.
\<close>

theorem compose_wraps_shared_route_twice:
  "compose (Suc (Suc 0)) doubling (group_mem ex_nested_mem) (mware_mem ex_nested_mem)
       (route_mem ex_nested_mem) ex_nested
     = Some (Inr ([[\<lparr>pattern = ''/a'', fn = logging 1 (trace_handler 0)\<rparr>],
                   [\<lparr>pattern = ''/a'', fn = logging 1 (logging 1 (trace_handler 0))\<rparr>,
                    \<lparr>pattern = ''/a'', fn = logging 1 (logging 1 (trace_handler 0))\<rparr>]],
                  \<lparr>arr = 1, off = 0, len = 2, cap = 2\<rparr>))
   \<and> cells (group_mem ex_nested_mem) (groups ex_nested) = [ex_group]
   \<and> cells (route_mem ex_nested_mem) (routes ex_nested) = [\<lparr>pattern = ''/a'', fn = trace_handler 0\<rparr>]
   \<and> cells (mware_mem ex_nested_mem) (wrap ex_nested) = [Some (logging 1)]
   \<and> compose (Suc 0) doubling (group_mem ex_nested_mem) (mware_mem ex_nested_mem)
       (route_mem ex_nested_mem) ex_group
     = Some (Inr ([[\<lparr>pattern = ''/a'', fn = logging 1 (trace_handler 0)\<rparr>]], ex_slice))
   \<and> map (\<lambda>r. Route_Wrap r [logging 1])
        ([\<lparr>pattern = ''/a'', fn = trace_handler 0\<rparr>]
           @ cells [[\<lparr>pattern = ''/a'', fn = logging 1 (trace_handler 0)\<rparr>]] ex_slice)
     = [\<lparr>pattern = ''/a'', fn = logging 1 (trace_handler 0)\<rparr>,
        \<lparr>pattern = ''/a'', fn = logging 1 (logging 1 (trace_handler 0))\<rparr>]
   \<and> cells [[\<lparr>pattern = ''/a'', fn = logging 1 (trace_handler 0)\<rparr>],
             [\<lparr>pattern = ''/a'', fn = logging 1 (logging 1 (trace_handler 0))\<rparr>,
              \<lparr>pattern = ''/a'', fn = logging 1 (logging 1 (trace_handler 0))\<rparr>]]
        \<lparr>arr = 1, off = 0, len = 2, cap = 2\<rparr>
     \<noteq> [\<lparr>pattern = ''/a'', fn = logging 1 (trace_handler 0)\<rparr>,
        \<lparr>pattern = ''/a'', fn = logging 1 (logging 1 (trace_handler 0))\<rparr>]
   \<and> call (logging 1 (trace_handler 0)) [] = Some [1, 0, 101]
   \<and> call (logging 1 (logging 1 (trace_handler 0))) [] = Some [1, 1, 0, 101, 101]"
proof -
  have m: "mware_mem ex_nested_mem = ex_mware" "group_mem ex_nested_mem = [[ex_group]]"
      "route_mem ex_nested_mem = [[\<lparr>pattern = ''/a'', fn = trace_handler 0\<rparr>]]"
    by (simp_all add: ex_nested_mem_def ex_mem_def ex_store_def ex_route_def)
  have g: "cells [[ex_group]] (groups ex_nested) = [ex_group]" "routes ex_nested = ex_slice"
      "wrap ex_nested = ex_slice" "cells ex_mware ex_slice = [Some (logging 1)]"
    by (simp_all add: ex_nested_def ex_slice_def cells_def ex_mware_def)
  have c: "compose (Suc (Suc 0)) doubling [[ex_group]] ex_mware
       [[\<lparr>pattern = ''/a'', fn = trace_handler 0\<rparr>]] ex_nested
     = Some (Inr ([[\<lparr>pattern = ''/a'', fn = logging 1 (trace_handler 0)\<rparr>],
                   [\<lparr>pattern = ''/a'', fn = logging 1 (logging 1 (trace_handler 0))\<rparr>,
                    \<lparr>pattern = ''/a'', fn = logging 1 (logging 1 (trace_handler 0))\<rparr>]],
                  \<lparr>arr = 1, off = 0, len = 2, cap = 2\<rparr>))"
    unfolding compose.simps(2) [of "Suc 0"] g compose_groups.simps compose_ex_group
    by (simp add: ex_slice_def run_defs)
  show ?thesis
    unfolding m c compose_ex_group g
    by (simp add: ex_slice_def cells_def Route_Wrap_simps call_logging call_trace_handler
        logging_twice_differs)
qed


section \<open>Composing a router\<close>

lemma Compose_groups_ex_group:
  "Compose_groups (Suc 0) doubling G ex_mware [[\<lparr>pattern = p, fn = f\<rparr>]] \<rho> nil_slice [ex_group]
      = Some (Inr ([[\<lparr>pattern = p, fn = logging 1 f\<rparr>]], \<rho> @ [[\<lparr>pattern = p, fn = logging 1 f\<rparr>]],
                   \<lparr>arr = length \<rho>, off = 0, len = 1, cap = 1\<rparr>))"
  by (simp add: compose_ex_group del: compose.simps)
     (simp add: ex_slice_def nil_slice_def append_routes_def append_slice_def Let_def doubling_def
        cells_def)

lemma is_nil_logging [simp]: "\<not> is_nil (logging k f)"
  by (simp add: logging_def onion_def)

lemma Compose_ex_group:
  assumes "mware_mem mem = ex_mware" and "route_mem mem = [[\<lparr>pattern = p, fn = f\<rparr>]]"
    and "cells (group_mem mem) (rgroups r) = [ex_group]"
    and "rroutes r = nil_slice" and "rwrap r = nil_slice" and "mux r = Some a"
    and "a < length (muxes mem)" and "muxes mem ! a = []" and "p \<noteq> []"
  shows "Compose (Suc 0) doubling no_refusal mem r []
     = Some (Inr (Inr (mem\<lparr>route_mem := [[\<lparr>pattern = p, fn = logging 1 f\<rparr>]],
                           router_mem := router_mem mem @ [[\<lparr>pattern = p, fn = logging 1 f\<rparr>]],
                           muxes := (muxes mem)[a := [(p, logging 1 f)]]\<rparr>, Some a)))"
proof -
  have ws: "cells ex_mware nil_slice = []" by (simp add: cells_def nil_slice_def)
  show ?thesis
    unfolding Compose_def Router_Add.simps sum.case prod.case assms Compose_groups_ex_group option.case ws
    using assms(7-9)
    by (simp add: wrap_index_eq Route_Wrap_simps refused_def no_refusal_def Let_def)
qed

text \<open>
  C9. The claim: composing an identical router tree twice gives the same patterns with
  the same wrap structure. The code at
  \<^verbatim>\<open>g0 := Group{}.Add(Handle("/a", h)).Wrap(m); r1 := NewRouter().Add(g0);\<close>
  \<^verbatim>\<open>r2 := NewRouter().Add(g0); r1.Compose(); r2.Compose()\<close>: the two routers hold the same
  group, the mux of the first receives \<open>m h\<close> for \<^verbatim>\<open>/a\<close> and the mux of the second
  \<open>m (m h)\<close>, since the first \<^verbatim>\<open>Compose\<close> wrapped the route of \<^verbatim>\<open>g0\<close> in place. The write is
  the one of C4.
\<close>

theorem same_group_in_two_routers:
  "Compose (Suc 0) doubling no_refusal ex_routers_mem ex_router1 []
     = Some (Inr (Inr (ex_routers_mem
          \<lparr>route_mem := [[\<lparr>pattern = ''/a'', fn = logging 1 (trace_handler 0)\<rparr>]],
           router_mem := [[\<lparr>pattern = ''/a'', fn = logging 1 (trace_handler 0)\<rparr>]],
           muxes := [[(''/a'', logging 1 (trace_handler 0))], []]\<rparr>, Some 0)))
   \<and> Compose (Suc 0) doubling no_refusal
        (ex_routers_mem
          \<lparr>route_mem := [[\<lparr>pattern = ''/a'', fn = logging 1 (trace_handler 0)\<rparr>]],
           router_mem := [[\<lparr>pattern = ''/a'', fn = logging 1 (trace_handler 0)\<rparr>]],
           muxes := [[(''/a'', logging 1 (trace_handler 0))], []]\<rparr>) ex_router2 []
     = Some (Inr (Inr (ex_routers_mem
          \<lparr>route_mem := [[\<lparr>pattern = ''/a'', fn = logging 1 (logging 1 (trace_handler 0))\<rparr>]],
           router_mem := [[\<lparr>pattern = ''/a'', fn = logging 1 (trace_handler 0)\<rparr>],
                          [\<lparr>pattern = ''/a'', fn = logging 1 (logging 1 (trace_handler 0))\<rparr>]],
           muxes := [[(''/a'', logging 1 (trace_handler 0))],
                     [(''/a'', logging 1 (logging 1 (trace_handler 0)))]]\<rparr>, Some 1)))
   \<and> cells (group_mem ex_routers_mem) (rgroups ex_router1) = [ex_group]
   \<and> cells (group_mem ex_routers_mem) (rgroups ex_router2) = [ex_group]
   \<and> [(''/a'', logging 1 (logging 1 (trace_handler 0)))] \<noteq> [(''/a'', logging 1 (trace_handler 0))]
   \<and> call (logging 1 (trace_handler 0)) [] = Some [1, 0, 101]
   \<and> call (logging 1 (logging 1 (trace_handler 0))) [] = Some [1, 1, 0, 101, 101]"
proof -
  have g: "cells (group_mem ex_routers_mem) (rgroups ex_router1) = [ex_group]"
      "cells (group_mem ex_routers_mem) (rgroups ex_router2) = [ex_group]"
    by (simp_all add: ex_routers_mem_def ex_router1_def ex_router2_def cells_def)
  have m: "mware_mem ex_routers_mem = ex_mware"
      "route_mem ex_routers_mem = [[\<lparr>pattern = ''/a'', fn = trace_handler 0\<rparr>]]"
      "router_mem ex_routers_mem = []" "muxes ex_routers_mem = [[], []]"
    by (simp_all add: ex_routers_mem_def ex_mem_def ex_store_def ex_route_def)
  have r: "rroutes ex_router1 = nil_slice" "rwrap ex_router1 = nil_slice" "mux ex_router1 = Some 0"
      "rroutes ex_router2 = nil_slice" "rwrap ex_router2 = nil_slice" "mux ex_router2 = Some 1"
    by (simp_all add: ex_router1_def ex_router2_def)
  have 1: "Compose (Suc 0) doubling no_refusal ex_routers_mem ex_router1 []
     = Some (Inr (Inr (ex_routers_mem
          \<lparr>route_mem := [[\<lparr>pattern = ''/a'', fn = logging 1 (trace_handler 0)\<rparr>]],
           router_mem := [[\<lparr>pattern = ''/a'', fn = logging 1 (trace_handler 0)\<rparr>]],
           muxes := [[(''/a'', logging 1 (trace_handler 0))], []]\<rparr>, Some 0)))"
    using Compose_ex_group [of ex_routers_mem "''/a''" "trace_handler 0" ex_router1 0]
    by (simp add: g m r)
  have 2: "Compose (Suc 0) doubling no_refusal
        (ex_routers_mem
          \<lparr>route_mem := [[\<lparr>pattern = ''/a'', fn = logging 1 (trace_handler 0)\<rparr>]],
           router_mem := [[\<lparr>pattern = ''/a'', fn = logging 1 (trace_handler 0)\<rparr>]],
           muxes := [[(''/a'', logging 1 (trace_handler 0))], []]\<rparr>) ex_router2 []
     = Some (Inr (Inr (ex_routers_mem
          \<lparr>route_mem := [[\<lparr>pattern = ''/a'', fn = logging 1 (logging 1 (trace_handler 0))\<rparr>]],
           router_mem := [[\<lparr>pattern = ''/a'', fn = logging 1 (trace_handler 0)\<rparr>],
                          [\<lparr>pattern = ''/a'', fn = logging 1 (logging 1 (trace_handler 0))\<rparr>]],
           muxes := [[(''/a'', logging 1 (trace_handler 0))],
                     [(''/a'', logging 1 (logging 1 (trace_handler 0)))]]\<rparr>, Some 1)))"
    using Compose_ex_group [of "ex_routers_mem
          \<lparr>route_mem := [[\<lparr>pattern = ''/a'', fn = logging 1 (trace_handler 0)\<rparr>]],
           router_mem := [[\<lparr>pattern = ''/a'', fn = logging 1 (trace_handler 0)\<rparr>]],
           muxes := [[(''/a'', logging 1 (trace_handler 0))], []]\<rparr>"
        "''/a''" "logging 1 (trace_handler 0)" ex_router2 1]
    by (simp add: g m r)
  show ?thesis
    unfolding 1 2 g
    by (simp add: call_logging call_trace_handler logging_twice_differs)
qed















end
